theory Spec2Isabelle
  imports Main
begin

section \<open>Graph model of the flow viewer (src/index.tsx)\<close>

text \<open>
  The types of the source: \<open>NodeType\<close>, \<open>Option\<close>, \<open>LogicPath\<close>, \<open>NodeData\<close>,
  \<open>AppNode\<close> and the \<open>Edge\<close> of the graph library. Fields that only place a node on
  the canvas (\<open>position\<close>, \<open>markerEnd\<close>) are left out: the viewer never reads them.
  Field names carry a prefix where two interfaces share a name.
\<close>

datatype NodeType = Radio | Checkbox | Static | End

record FlowOption =
  opt_id :: string
  opt_label :: string

record LogicPath =
  path_id :: string
  path_label :: string
  requiredOptionIds :: "string list"

record NodeData =
  data_label :: string
  content :: string
  data_type :: NodeType
  options :: "FlowOption list option"
  paths :: "LogicPath list option"
  canRestart :: "bool option"

record AppNode =
  node_id :: string
  data :: NodeData

text \<open>
  An edge's \<open>sourceHandle\<close> is \<open>string | null | undefined\<close> in the source, and the
  viewer compares it with \<open>===\<close> against \<open>selections[0]\<close>, which is \<open>undefined\<close> on an
  empty array. The three cases are kept apart.
\<close>

datatype handle = HUndefined | HNull | HStr string

record Edge =
  source :: string
  target :: string
  sourceHandle :: handle

section \<open>Viewer state\<close>

text \<open>
  The three \<open>useState\<close> cells of \<open>Viewer\<close>, as one record; a setter call becomes a
  field of the returned record.
\<close>

record ViewerState =
  history :: "string list"
  currentNodeId :: string
  selections :: "string list"

definition initialState :: ViewerState where
  "initialState = \<lparr>history = [], currentNodeId = ''start'', selections = []\<rparr>"

definition findNode :: "AppNode list \<Rightarrow> string \<Rightarrow> AppNode option" where
  "findNode nodes i = find (\<lambda>n. node_id n = i) nodes"

definition currentNode :: "AppNode list \<Rightarrow> ViewerState \<Rightarrow> AppNode option" where
  "currentNode nodes st = findNode nodes (currentNodeId st)"

section \<open>Sorting with a comparator\<close>

text \<open>
  \<open>Array.prototype.sort\<close> with a comparator is stable; for a consistent comparator its
  result is the one stable order, which insertion from the right computes: an element
  goes before the first element it does not compare greater than.
\<close>

fun insertBy :: "('a \<Rightarrow> 'a \<Rightarrow> int) \<Rightarrow> 'a \<Rightarrow> 'a list \<Rightarrow> 'a list" where
  "insertBy cmp x [] = [x]"
| "insertBy cmp x (y # ys) = (if cmp x y \<le> 0 then x # y # ys else y # insertBy cmp x ys)"

fun sortBy :: "('a \<Rightarrow> 'a \<Rightarrow> int) \<Rightarrow> 'a list \<Rightarrow> 'a list" where
  "sortBy cmp [] = []"
| "sortBy cmp (x # xs) = insertBy cmp x (sortBy cmp xs)"

section \<open>Path matching of a checkbox node\<close>

text \<open>
  \<open>String.prototype.localeCompare\<close> is the platform's collation and not part of the
  source; it is the parameter \<open>lc\<close> of everything that sorts. The comparator of
  \<open>handleContinue\<close>: longer requirement lists first, then by label.
\<close>

definition pathCompare :: "(string \<Rightarrow> string \<Rightarrow> int) \<Rightarrow> LogicPath \<Rightarrow> LogicPath \<Rightarrow> int" where
  "pathCompare lc a b =
     (let lenDiff = int (length (requiredOptionIds b)) - int (length (requiredOptionIds a))
      in if lenDiff \<noteq> 0 then lenDiff else lc (path_label a) (path_label b))"

definition sortedPaths :: "(string \<Rightarrow> string \<Rightarrow> int) \<Rightarrow> LogicPath list \<Rightarrow> LogicPath list" where
  "sortedPaths lc ps = sortBy (pathCompare lc) ps"

definition pathMatches :: "string list \<Rightarrow> LogicPath \<Rightarrow> bool" where
  "pathMatches sel p = list_all (\<lambda>req. req \<in> set sel) (requiredOptionIds p)"

definition matchedPath :: "(string \<Rightarrow> string \<Rightarrow> int) \<Rightarrow> LogicPath list \<Rightarrow> string list \<Rightarrow> LogicPath option" where
  "matchedPath lc ps sel = find (pathMatches sel) (sortedPaths lc ps)"

section \<open>The transitions of the viewer\<close>

text \<open>
  What one call of \<open>handleContinue\<close> did: the two silent returns, the restart, the
  committed move, and the two alerts (\<open>AlertNoValidPath\<close>: "No valid path defined for
  this selection."; \<open>AlertNextNodeMissing\<close>: "Configuration Error: The next node is
  missing.").
\<close>

datatype outcome =
  NoCurrentNode | TerminalNoRestart | Restarted | Moved | AlertNextNodeMissing | AlertNoValidPath

definition selectedOptionId :: "string list \<Rightarrow> handle" where
  "selectedOptionId sel = (case sel of [] \<Rightarrow> HUndefined | c # _ \<Rightarrow> HStr c)"

definition nextEdge ::
  "(string \<Rightarrow> string \<Rightarrow> int) \<Rightarrow> AppNode \<Rightarrow> Edge list \<Rightarrow> ViewerState \<Rightarrow> Edge option" where
  "nextEdge lc cn edges st =
     (case data_type (data cn) of
        Static \<Rightarrow> find (\<lambda>e. source e = currentNodeId st) edges
      | Radio \<Rightarrow>
          find (\<lambda>e. source e = currentNodeId st \<and> sourceHandle e = selectedOptionId (selections st)) edges
      | Checkbox \<Rightarrow>
          (case matchedPath lc (case paths (data cn) of None \<Rightarrow> [] | Some ps \<Rightarrow> ps) (selections st) of
             None \<Rightarrow> None
           | Some m \<Rightarrow>
               find (\<lambda>e. source e = currentNodeId st \<and> sourceHandle e = HStr (path_id m)) edges)
      | End \<Rightarrow> None)"

definition handleContinue ::
  "(string \<Rightarrow> string \<Rightarrow> int) \<Rightarrow> AppNode list \<Rightarrow> Edge list \<Rightarrow> ViewerState \<Rightarrow> outcome \<times> ViewerState" where
  "handleContinue lc nodes edges st =
     (case currentNode nodes st of
        None \<Rightarrow> (NoCurrentNode, st)
      | Some cn \<Rightarrow>
          if data_type (data cn) = End then
            (if canRestart (data cn) = Some True
             then (Restarted, \<lparr>history = [], currentNodeId = ''start'', selections = []\<rparr>)
             else (TerminalNoRestart, st))
          else
            (case nextEdge lc cn edges st of
               None \<Rightarrow> (AlertNoValidPath, st)
             | Some e \<Rightarrow>
                 (case findNode nodes (target e) of
                    None \<Rightarrow> (AlertNextNodeMissing, st)
                  | Some targetNode \<Rightarrow>
                      (Moved, \<lparr>history = history st @ [currentNodeId st],
                               currentNodeId = target e, selections = []\<rparr>))))"

text \<open>
  \<open>handleBack\<close> pops the history first and moves only when the popped id is truthy:
  the empty string is not.
\<close>

definition handleBack :: "ViewerState \<Rightarrow> ViewerState" where
  "handleBack st =
     (if history st = [] then st
      else
        (let newHistory = butlast (history st); prevId = last (history st)
         in if prevId \<noteq> []
            then \<lparr>history = newHistory, currentNodeId = prevId, selections = []\<rparr>
            else st\<lparr>history := newHistory\<rparr>))"

definition toggleSelection :: "string \<Rightarrow> bool \<Rightarrow> ViewerState \<Rightarrow> ViewerState" where
  "toggleSelection optId isRadio st =
     (if isRadio then st\<lparr>selections := [optId]\<rparr>
      else st\<lparr>selections :=
        (if optId \<in> set (selections st) then filter (\<lambda>i. i \<noteq> optId) (selections st)
         else selections st @ [optId])\<rparr>)"

section \<open>What the viewer renders\<close>

text \<open>
  \<open>Viewer\<close> has no start-node argument. Mounting it creates the three state cells
  with their initial values, whatever the graph holds, and then renders: the text
  "Node not found" when no node has the current id, otherwise the card of the current
  node.
\<close>

datatype rendered = NodeNotFound | Card AppNode

definition render :: "AppNode list \<Rightarrow> ViewerState \<Rightarrow> rendered" where
  "render nodes st =
     (case currentNode nodes st of
        None \<Rightarrow> NodeNotFound
      | Some cn \<Rightarrow> Card cn)"

definition viewerMount :: "AppNode list \<Rightarrow> ViewerState \<times> rendered" where
  "viewerMount nodes = (initialState, render nodes initialState)"

text \<open>
  The card's Continue button is disabled on a node that is not \<open>static\<close> while nothing
  is selected; on an \<open>end\<close> node the button is Restart and exists only when the node
  can restart. \<open>canAdvance\<close> says whether a button that calls \<open>handleContinue\<close> can
  be pressed, and \<open>clickContinue\<close> is a press of it.
\<close>

definition continueDisabled :: "AppNode \<Rightarrow> ViewerState \<Rightarrow> bool" where
  "continueDisabled cn st = (data_type (data cn) \<noteq> Static \<and> selections st = [])"

definition canAdvance :: "AppNode \<Rightarrow> ViewerState \<Rightarrow> bool" where
  "canAdvance cn st =
     (if data_type (data cn) \<noteq> End then \<not> continueDisabled cn st
      else canRestart (data cn) = Some True)"

datatype click = NotRendered | Blocked | Clicked outcome

definition clickContinue ::
  "(string \<Rightarrow> string \<Rightarrow> int) \<Rightarrow> AppNode list \<Rightarrow> Edge list \<Rightarrow> ViewerState \<Rightarrow> click \<times> ViewerState" where
  "clickContinue lc nodes edges st =
     (case currentNode nodes st of
        None \<Rightarrow> (NotRendered, st)
      | Some cn \<Rightarrow>
          if canAdvance cn st
          then (case handleContinue lc nodes edges st of (r, st') \<Rightarrow> (Clicked r, st'))
          else (Blocked, st))"

section \<open>Comparators\<close>

text \<open>
  What the sort expects of a comparator: it compares an element equal to itself, a
  negative answer one way is a positive answer the other way, and "not greater" is
  transitive.
\<close>

definition consistentComparator :: "('a \<Rightarrow> 'a \<Rightarrow> int) \<Rightarrow> bool" where
  "consistentComparator cmp \<longleftrightarrow>
     (\<forall>a. cmp a a = 0) \<and>
     (\<forall>a b. cmp a b < 0 \<longleftrightarrow> 0 < cmp b a) \<and>
     (\<forall>a b c. cmp a b \<le> 0 \<and> cmp b c \<le> 0 \<longrightarrow> cmp a c \<le> 0)"

text \<open>
  One collation to run examples with: strings compared character code by character
  code, a proper prefix first.
\<close>

fun codeUnitCompare :: "string \<Rightarrow> string \<Rightarrow> int" where
  "codeUnitCompare [] [] = 0"
| "codeUnitCompare [] (y # ys) = -1"
| "codeUnitCompare (x # xs) [] = 1"
| "codeUnitCompare (x # xs) (y # ys) =
     (if (of_char x :: nat) < of_char y then -1
      else if (of_char y :: nat) < of_char x then 1
      else codeUnitCompare xs ys)"

section \<open>Example flows\<close>

definition mkNode ::
  "string \<Rightarrow> NodeType \<Rightarrow> FlowOption list \<Rightarrow> LogicPath list \<Rightarrow> bool option \<Rightarrow> AppNode" where
  "mkNode i t os ps r =
     \<lparr>node_id = i,
      data = \<lparr>data_label = i, content = ''Click to edit content...'', data_type = t,
               options = Some os, paths = Some ps, canRestart = r\<rparr>\<rparr>"

definition mkOption :: "string \<Rightarrow> FlowOption" where
  "mkOption i = \<lparr>opt_id = i, opt_label = i\<rparr>"

definition edge :: "string \<Rightarrow> handle \<Rightarrow> string \<Rightarrow> Edge" where
  "edge s h t = \<lparr>source = s, target = t, sourceHandle = h\<rparr>"

definition stateAt :: "string list \<Rightarrow> string \<Rightarrow> string list \<Rightarrow> ViewerState" where
  "stateAt h i sel = \<lparr>history = h, currentNodeId = i, selections = sel\<rparr>"

text \<open>
  A flow with two edges out of \<open>start\<close>, a node \<open>Y\<close> with no edge out, a node
  \<open>X\<close> whose first edge leads to a node that does not exist, and two end nodes.
\<close>

definition nodeAgain :: AppNode where
  "nodeAgain = mkNode ''again'' End [] [] (Some True)"

definition exampleNodes :: "AppNode list" where
  "exampleNodes =
     [mkNode ''start'' Static [] [] None, mkNode ''X'' Static [] [] None,
      mkNode ''Y'' Static [] [] None, mkNode ''stop'' End [] [] None, nodeAgain]"

definition exampleEdges :: "Edge list" where
  "exampleEdges =
     [edge ''start'' HNull ''Y'', edge ''start'' HNull ''X'',
      edge ''X'' HNull ''gone'', edge ''X'' HNull ''again'', edge ''X'' HNull ''stop'']"

text \<open>
  The single-choice scenario: \<open>Q\<close> with choices \<open>A\<close>, \<open>B\<close> and the connections
  \<open>Q--A-->X\<close>, \<open>Q--B-->Y\<close>.
\<close>

definition nodeQ :: AppNode where
  "nodeQ = mkNode ''Q'' Radio [mkOption ''A'', mkOption ''B''] [] None"

definition scenarioQNodes :: "AppNode list" where
  "scenarioQNodes = [nodeQ, mkNode ''X'' Static [] [] None, mkNode ''Y'' Static [] [] None]"

definition scenarioQEdges :: "Edge list" where
  "scenarioQEdges = [edge ''Q'' (HStr ''A'') ''X'', edge ''Q'' (HStr ''B'') ''Y'']"

text \<open>
  The multi-choice scenario: \<open>M\<close> with choices \<open>A\<close>, \<open>B\<close>, \<open>C\<close> and the paths
  \<open>P1\<close> requiring \<open>A\<close> (to \<open>X\<close>), \<open>P2\<close> requiring \<open>A\<close> and \<open>B\<close> (to \<open>Y\<close>),
  \<open>P3\<close> requiring nothing (to \<open>Z\<close>).
\<close>

definition pathP1 :: LogicPath where
  "pathP1 = \<lparr>path_id = ''P1'', path_label = ''one'', requiredOptionIds = [''A'']\<rparr>"

definition pathP2 :: LogicPath where
  "pathP2 = \<lparr>path_id = ''P2'', path_label = ''two'', requiredOptionIds = [''A'', ''B'']\<rparr>"

definition pathP3 :: LogicPath where
  "pathP3 = \<lparr>path_id = ''P3'', path_label = ''else'', requiredOptionIds = []\<rparr>"

definition nodeM :: AppNode where
  "nodeM = mkNode ''M'' Checkbox [mkOption ''A'', mkOption ''B'', mkOption ''C'']
     [pathP1, pathP2, pathP3] None"

definition scenarioMNodes :: "AppNode list" where
  "scenarioMNodes =
     [nodeM, mkNode ''X'' Static [] [] None, mkNode ''Y'' Static [] [] None,
      mkNode ''Z'' Static [] [] None]"

definition scenarioMEdges :: "Edge list" where
  "scenarioMEdges =
     [edge ''M'' (HStr ''P1'') ''X'', edge ''M'' (HStr ''P2'') ''Y'', edge ''M'' (HStr ''P3'') ''Z'']"

text \<open>Paths that tie on the number of required options and differ in their labels.\<close>

definition pathAlpha :: LogicPath where
  "pathAlpha = \<lparr>path_id = ''p-a'', path_label = ''alpha'', requiredOptionIds = [''A'']\<rparr>"

definition pathBeta :: LogicPath where
  "pathBeta = \<lparr>path_id = ''p-b'', path_label = ''beta'', requiredOptionIds = [''B'']\<rparr>"

definition tiePaths :: "LogicPath list" where
  "tiePaths =
     [\<lparr>path_id = ''p-else'', path_label = ''always'', requiredOptionIds = []\<rparr>,
      pathBeta, pathAlpha,
      \<lparr>path_id = ''p-ac'', path_label = ''aardvark'', requiredOptionIds = [''A'', ''C'']\<rparr>]"

text \<open>A multi-choice node with no path that requires nothing.\<close>

definition nodeStrict :: AppNode where
  "nodeStrict = mkNode ''S'' Checkbox [mkOption ''A'', mkOption ''B''] [pathP1, pathP2] None"

text \<open>
  A multi-choice node \<open>M\<close> with the given paths, each path wired to a static node
  that carries the path's id.
\<close>

definition hubNodes :: "LogicPath list \<Rightarrow> AppNode list" where
  "hubNodes ps = mkNode ''M'' Checkbox [] ps None # map (\<lambda>p. mkNode (path_id p) Static [] [] None) ps"

definition hubEdges :: "LogicPath list \<Rightarrow> Edge list" where
  "hubEdges ps = map (\<lambda>p. edge ''M'' (HStr (path_id p)) (path_id p)) ps"

text \<open>Paths for the corner cases: three nested requirements, a repeated id, a three-way tie.\<close>

definition pathP4 :: LogicPath where
  "pathP4 = \<lparr>path_id = ''P4'', path_label = ''three'', requiredOptionIds = [''A'', ''B'', ''C'']\<rparr>"

definition pathRepeat :: LogicPath where
  "pathRepeat = \<lparr>path_id = ''PR'', path_label = ''repeat'', requiredOptionIds = [''A'', ''A'', ''A'']\<rparr>"

definition pathGamma :: LogicPath where
  "pathGamma = \<lparr>path_id = ''p-c'', path_label = ''aaa'', requiredOptionIds = [''C'']\<rparr>"

definition pathLong :: LogicPath where
  "pathLong = \<lparr>path_id = ''p-l'', path_label = ''beta'', requiredOptionIds = [''A'', ''A'', ''B'']\<rparr>"

definition pathShort :: LogicPath where
  "pathShort = \<lparr>path_id = ''p-s'', path_label = ''alpha'', requiredOptionIds = [''A'', ''B'']\<rparr>"

lemmas viewer_defs = currentNode_def findNode_def nextEdge_def handleContinue_def
  selectedOptionId_def matchedPath_def sortedPaths_def pathCompare_def pathMatches_def

lemmas example_defs = mkNode_def mkOption_def edge_def stateAt_def nodeAgain_def
  exampleNodes_def exampleEdges_def nodeQ_def scenarioQNodes_def scenarioQEdges_def
  pathP1_def pathP2_def pathP3_def nodeM_def scenarioMNodes_def scenarioMEdges_def

section \<open>Lists: find and the comparator sort\<close>

lemma find_None_set: "find P xs = None \<longleftrightarrow> (\<forall>x\<in>set xs. \<not> P x)"
  by (induction xs) auto

lemma find_Some_mem: "find P xs = Some m \<Longrightarrow> m \<in> set xs \<and> P m"
  by (induction xs) (auto split: if_splits)

lemma find_exists: "p \<in> set xs \<Longrightarrow> P p \<Longrightarrow> \<exists>m. find P xs = Some m"
  by (induction xs) auto

lemma find_Some_split:
  "find P xs = Some e \<Longrightarrow> \<exists>pre post. xs = pre @ e # post \<and> (\<forall>x\<in>set pre. \<not> P x) \<and> P e"
proof (induction xs)
  case Nil
  then show ?case by simp
next
  case (Cons x xs)
  show ?case
  proof (cases "P x")
    case True
    with Cons.prems have "x # xs = [] @ e # xs \<and> (\<forall>y\<in>set []. \<not> P y) \<and> P e" by simp
    then show ?thesis by blast
  next
    case False
    with Cons obtain pre post where "xs = pre @ e # post" "\<forall>y\<in>set pre. \<not> P y" "P e" by auto
    with False have "x # xs = (x # pre) @ e # post \<and> (\<forall>y\<in>set (x # pre). \<not> P y) \<and> P e" by simp
    then show ?thesis by blast
  qed
qed

lemma find_sorted_wrt:
  "sorted_wrt R xs \<Longrightarrow> find P xs = Some m \<Longrightarrow> p \<in> set xs \<Longrightarrow> P p \<Longrightarrow> p = m \<or> R m p"
  by (induction xs) (auto split: if_splits)

lemma set_insertBy: "set (insertBy cmp x ys) = insert x (set ys)"
  by (induction ys) auto

lemma set_sortBy: "set (sortBy cmp xs) = set xs"
  by (induction xs) (auto simp: set_insertBy)

text \<open>
  Insertion keeps a list ordered by any transitive relation that the comparator decides:
  \<open>R a b\<close> when \<open>a\<close> does not compare greater than \<open>b\<close>, \<open>R b a\<close> when it does.
\<close>

lemma sorted_wrt_insertBy:
  assumes "transp R" and "\<And>a b. cmp a b \<le> 0 \<Longrightarrow> R a b" and "\<And>a b. \<not> cmp a b \<le> 0 \<Longrightarrow> R b a"
    and "sorted_wrt R ys"
  shows "sorted_wrt R (insertBy cmp x ys)"
  using assms(4)
proof (induction ys)
  case Nil
  then show ?case by simp
next
  case (Cons y ys)
  show ?case
  proof (cases "cmp x y \<le> 0")
    case True
    then have "R x y" by (rule assms(2))
    moreover have "\<forall>z\<in>set ys. R y z" using Cons.prems by simp
    ultimately have "\<forall>z\<in>set ys. R x z" using assms(1) by (meson transpD)
    with True \<open>R x y\<close> Cons.prems show ?thesis by simp
  next
    case False
    then have "R y x" by (rule assms(3))
    with False Cons show ?thesis by (auto simp: set_insertBy)
  qed
qed

lemma sorted_wrt_sortBy:
  assumes "transp R" and "\<And>a b. cmp a b \<le> 0 \<Longrightarrow> R a b" and "\<And>a b. \<not> cmp a b \<le> 0 \<Longrightarrow> R b a"
  shows "sorted_wrt R (sortBy cmp xs)"
  by (induction xs) (auto intro: sorted_wrt_insertBy [OF assms])

section \<open>Comparator laws\<close>

lemma comparator_total:
  assumes "consistentComparator cmp" and "\<not> cmp a b \<le> 0"
  shows "cmp b a < 0"
proof -
  from assms(1) have "cmp b a < 0 \<longleftrightarrow> 0 < cmp a b"
    unfolding consistentComparator_def by blast
  with assms(2) show ?thesis by linarith
qed

lemma comparator_strict:
  assumes "consistentComparator cmp" and "cmp a b < 0"
  shows "0 < cmp b a"
proof -
  from assms(1) have "cmp a b < 0 \<longleftrightarrow> 0 < cmp b a"
    unfolding consistentComparator_def by blast
  with assms(2) show ?thesis by blast
qed

lemma comparator_trans:
  "consistentComparator cmp \<Longrightarrow> cmp a b \<le> 0 \<Longrightarrow> cmp b c \<le> 0 \<Longrightarrow> cmp a c \<le> 0"
  unfolding consistentComparator_def by blast

lemma codeUnitCompare_refl: "codeUnitCompare a a = 0"
  by (induction a) auto

lemma codeUnitCompare_antisym: "codeUnitCompare a b < 0 \<longleftrightarrow> 0 < codeUnitCompare b a"
  by (induction a b rule: codeUnitCompare.induct) auto

lemma codeUnitCompare_trans:
  "codeUnitCompare a b \<le> 0 \<Longrightarrow> codeUnitCompare b c \<le> 0 \<Longrightarrow> codeUnitCompare a c \<le> 0"
proof (induction a b arbitrary: c rule: codeUnitCompare.induct)
  case 1
  then show ?case by simp
next
  case (2 y ys)
  then show ?case by (cases c) auto
next
  case (3 x xs)
  then show ?case by simp
next
  case (4 x xs y ys)
  show ?case
  proof (cases c)
    case Nil
    with 4 show ?thesis by simp
  next
    case (Cons z zs)
    show ?thesis
    proof (cases "(of_char x :: nat) < of_char y")
      case True
      with 4(2,3) Cons show ?thesis by (auto split: if_splits)
    next
      case False
      with 4(2) have xy: "(of_char x :: nat) = of_char y" and r: "codeUnitCompare xs ys \<le> 0"
        by (simp_all split: if_splits)
      show ?thesis
      proof (cases "(of_char y :: nat) < of_char z")
        case True
        with xy Cons show ?thesis by auto
      next
        case F2: False
        with 4(3) Cons have yz: "(of_char y :: nat) = of_char z" and r2: "codeUnitCompare ys zs \<le> 0"
          by (simp_all split: if_splits)
        from 4(1) [OF _ _ r r2] xy have "codeUnitCompare xs zs \<le> 0" by simp
        with xy yz Cons show ?thesis by auto
      qed
    qed
  qed
qed

lemma codeUnitCompare_consistent: "consistentComparator codeUnitCompare"
  unfolding consistentComparator_def
  using codeUnitCompare_refl codeUnitCompare_antisym codeUnitCompare_trans by blast

section \<open>The sorted paths and the matched path\<close>

lemma pathMatches_subset: "pathMatches sel p \<longleftrightarrow> set (requiredOptionIds p) \<subseteq> set sel"
  by (auto simp: pathMatches_def list_all_iff)

lemma empty_selection_matches: "pathMatches [] p \<longleftrightarrow> requiredOptionIds p = []"
  by (simp add: pathMatches_subset)

lemma psubset_length:
  assumes "distinct xs" and "set xs \<subset> set ys"
  shows "length xs < length ys"
proof -
  have "length xs = card (set xs)" using assms(1) by (simp add: distinct_card)
  also have "\<dots> < card (set ys)" using assms(2) by (simp add: psubset_card_mono)
  also have "\<dots> \<le> length ys" by (rule card_length)
  finally show ?thesis .
qed

lemma pathCompare_le_iff:
  "pathCompare lc a b \<le> 0 \<longleftrightarrow>
     length (requiredOptionIds b) < length (requiredOptionIds a) \<or>
     (length (requiredOptionIds a) = length (requiredOptionIds b) \<and> lc (path_label a) (path_label b) \<le> 0)"
  by (auto simp: pathCompare_def Let_def)

text \<open>Whatever the collation answers, the sorted paths never grow in length.\<close>

lemma sortedPaths_by_length:
  "sorted_wrt (\<lambda>a b. length (requiredOptionIds b) \<le> length (requiredOptionIds a)) (sortedPaths lc ps)"
  unfolding sortedPaths_def
proof (rule sorted_wrt_sortBy)
  show "transp (\<lambda>a b. length (requiredOptionIds b) \<le> length (requiredOptionIds a))"
    by (auto intro: transpI)
next
  fix a b assume "pathCompare lc a b \<le> 0"
  then show "length (requiredOptionIds b) \<le> length (requiredOptionIds a)"
    by (auto simp: pathCompare_le_iff)
next
  fix a b assume "\<not> pathCompare lc a b \<le> 0"
  then show "length (requiredOptionIds a) \<le> length (requiredOptionIds b)"
    by (auto simp: pathCompare_le_iff)
qed

text \<open>With a consistent collation the sorted paths are ordered by the whole comparator.\<close>

lemma sortedPaths_by_comparator:
  assumes "consistentComparator lc"
  shows "sorted_wrt (\<lambda>a b. pathCompare lc a b \<le> 0) (sortedPaths lc ps)"
  unfolding sortedPaths_def
proof (rule sorted_wrt_sortBy)
  show "transp (\<lambda>a b. pathCompare lc a b \<le> 0)"
  proof (rule transpI)
    fix x y z assume "pathCompare lc x y \<le> 0" and "pathCompare lc y z \<le> 0"
    then show "pathCompare lc x z \<le> 0"
      using comparator_trans [OF assms, of "path_label x" "path_label y" "path_label z"]
      by (auto simp: pathCompare_le_iff)
  qed
next
  fix a b assume "pathCompare lc a b \<le> 0"
  then show "pathCompare lc a b \<le> 0" .
next
  fix a b assume "\<not> pathCompare lc a b \<le> 0"
  then show "pathCompare lc b a \<le> 0"
    using comparator_total [OF assms, of "path_label a" "path_label b"]
    by (auto simp: pathCompare_le_iff)
qed

lemma matchedPath_exists:
  assumes "p \<in> set ps" and "pathMatches sel p"
  shows "\<exists>m. matchedPath lc ps sel = Some m"
  unfolding matchedPath_def sortedPaths_def
  using assms find_exists [of p "sortBy (pathCompare lc) ps" "pathMatches sel"]
  by (simp add: set_sortBy)

lemma matchedPath_mem:
  assumes "matchedPath lc ps sel = Some m"
  shows "m \<in> set ps \<and> pathMatches sel m"
  using find_Some_mem [of "pathMatches sel" "sortedPaths lc ps" m] assms
  by (simp add: matchedPath_def sortedPaths_def set_sortBy)

lemma matchedPath_longest:
  assumes "matchedPath lc ps sel = Some m" and "p \<in> set ps" and "pathMatches sel p"
  shows "length (requiredOptionIds p) \<le> length (requiredOptionIds m)"
proof -
  have "p \<in> set (sortedPaths lc ps)" using assms(2) by (simp add: sortedPaths_def set_sortBy)
  with find_sorted_wrt [OF sortedPaths_by_length, of "pathMatches sel" lc ps m p] assms(1,3)
  show ?thesis by (auto simp: matchedPath_def)
qed

lemma matchedPath_least:
  assumes "consistentComparator lc"
    and "matchedPath lc ps sel = Some m" and "p \<in> set ps" and "pathMatches sel p"
  shows "pathCompare lc m p \<le> 0"
proof -
  have "p \<in> set (sortedPaths lc ps)" using assms(3) by (simp add: sortedPaths_def set_sortBy)
  with find_sorted_wrt [OF sortedPaths_by_comparator [OF assms(1)], of "pathMatches sel" ps m p] assms(2,4)
  have "p = m \<or> pathCompare lc m p \<le> 0" by (simp add: matchedPath_def)
  moreover have "pathCompare lc m m \<le> 0"
    using assms(1) by (simp add: pathCompare_def consistentComparator_def)
  ultimately show ?thesis by blast
qed

section \<open>How a resolved edge is followed\<close>

lemma handleContinue_follow:
  assumes "currentNode nodes st = Some cn" and "data_type (data cn) \<noteq> End"
  shows "handleContinue lc nodes edges st =
           (case nextEdge lc cn edges st of
              None \<Rightarrow> (AlertNoValidPath, st)
            | Some e \<Rightarrow>
                if findNode nodes (target e) = None then (AlertNextNodeMissing, st)
                else (Moved, \<lparr>history = history st @ [currentNodeId st],
                               currentNodeId = target e, selections = []\<rparr>))"
  using assms by (auto simp: handleContinue_def split: option.splits)

lemma nextEdge_checkbox:
  assumes "data_type (data cn) = Checkbox" and "paths (data cn) = Some ps"
    and "matchedPath lc ps (selections st) = Some m"
  shows "nextEdge lc cn edges st =
           find (\<lambda>e. source e = currentNodeId st \<and> sourceHandle e = HStr (path_id m)) edges"
  using assms by (simp add: nextEdge_def)

lemma matchedPath_empty:
  "matchedPath lc ps [] = find (\<lambda>p. requiredOptionIds p = []) (sortedPaths lc ps)"
proof -
  have "pathMatches [] = (\<lambda>p. requiredOptionIds p = [])"
    by (rule ext) (simp add: empty_selection_matches)
  then show ?thesis by (simp add: matchedPath_def)
qed

section \<open>Failure leaves the state alone\<close>

text \<open>
  C3. Atomicity of advance on failure. When no connection or path resolves,
  \<open>handleContinue\<close> raises the "no valid path" alert and returns the state it was given;
  when the resolved edge points at a node that does not exist, it raises the "next node
  is missing" alert and returns the state it was given; and whatever the reason, a call
  that neither moved nor restarted returns the prior state, all three fields unchanged.
\<close>

theorem advance_failure_atomic:
  "(currentNode nodes st = Some cn \<and> data_type (data cn) \<noteq> End \<and> nextEdge lc cn edges st = None
      \<longrightarrow> handleContinue lc nodes edges st = (AlertNoValidPath, st)) \<and>
   (currentNode nodes st = Some cn \<and> data_type (data cn) \<noteq> End \<and> nextEdge lc cn edges st = Some e \<and>
      findNode nodes (target e) = None
      \<longrightarrow> handleContinue lc nodes edges st = (AlertNextNodeMissing, st)) \<and>
   (fst (handleContinue lc nodes edges st) \<noteq> Moved \<and> fst (handleContinue lc nodes edges st) \<noteq> Restarted
      \<longrightarrow> snd (handleContinue lc nodes edges st) = st)"
  by (auto simp: handleContinue_def split: option.splits)

theorem advance_failure_atomic_witness:
  "handleContinue codeUnitCompare exampleNodes exampleEdges (stateAt [''start''] ''Y'' [''k'']) =
     (AlertNoValidPath, stateAt [''start''] ''Y'' [''k'']) \<and>
   handleContinue codeUnitCompare exampleNodes exampleEdges (stateAt [''start''] ''X'' [''k'']) =
     (AlertNextNodeMissing, stateAt [''start''] ''X'' [''k'']) \<and>
   fst (handleContinue codeUnitCompare exampleNodes exampleEdges (stateAt [''start'', ''X''] ''stop'' [''k''])) =
     TerminalNoRestart \<and>
   snd (handleContinue codeUnitCompare exampleNodes exampleEdges (stateAt [''start'', ''X''] ''stop'' [''k''])) =
     stateAt [''start'', ''X''] ''stop'' [''k'']"
  using advance_failure_atomic [where nodes = exampleNodes and st = "stateAt [''start''] ''Y'' [''k'']"
      and cn = "mkNode ''Y'' Static [] [] None" and lc = codeUnitCompare and edges = exampleEdges]
    advance_failure_atomic [where nodes = exampleNodes and st = "stateAt [''start''] ''X'' [''k'']"
      and cn = "mkNode ''X'' Static [] [] None" and lc = codeUnitCompare and edges = exampleEdges
      and e = "edge ''X'' HNull ''gone''"]
    advance_failure_atomic [where nodes = exampleNodes
      and st = "stateAt [''start'', ''X''] ''stop'' [''k'']"
      and lc = codeUnitCompare and edges = exampleEdges]
  by (simp add: viewer_defs example_defs)

section \<open>Restart at an end node\<close>

text \<open>
  C6. Terminal restart. When the current node is an end node that can restart,
  \<open>handleContinue\<close> succeeds and returns the initial state: empty history, empty
  selections, current node \<open>start\<close>, whatever the history and the selections were.
\<close>

theorem terminal_restart:
  assumes "currentNode nodes st = Some cn" and "data_type (data cn) = End"
    and "canRestart (data cn) = Some True"
  shows "handleContinue lc nodes edges st =
           (Restarted, \<lparr>history = [], currentNodeId = ''start'', selections = []\<rparr>) \<and>
         snd (handleContinue lc nodes edges st) = initialState"
  using assms by (simp add: handleContinue_def initialState_def)

theorem terminal_restart_witness:
  "currentNode exampleNodes (stateAt [''start'', ''X''] ''again'' [''k'']) = Some nodeAgain \<and>
   data_type (data nodeAgain) = End \<and> canRestart (data nodeAgain) = Some True \<and>
   handleContinue codeUnitCompare exampleNodes exampleEdges (stateAt [''start'', ''X''] ''again'' [''k'']) =
     (Restarted, \<lparr>history = [], currentNodeId = ''start'', selections = []\<rparr>)"
proof -
  have h1: "currentNode exampleNodes (stateAt [''start'', ''X''] ''again'' [''k'']) = Some nodeAgain"
    by (simp add: viewer_defs example_defs)
  have h2: "data_type (data nodeAgain) = End" and h3: "canRestart (data nodeAgain) = Some True"
    by (simp_all add: example_defs)
  from terminal_restart [OF h1 h2 h3, of codeUnitCompare exampleEdges] h1 h2 h3
  show ?thesis by simp
qed

section \<open>Single choice\<close>

text \<open>
  C7. SingleChoice resolution. On a radio node with exactly one selected option \<open>c\<close>,
  \<open>handleContinue\<close> resolves to the first edge out of the node whose \<open>sourceHandle\<close>
  is \<open>c\<close> and follows it, pushing the node onto the history and clearing the
  selections (or, that edge's target missing, raises the "next node is missing" alert
  and changes nothing); when no edge out of the node has that handle it raises the "no
  valid path" alert and changes nothing. In the scenario \<open>Q\<close> with \<open>Q--A-->X\<close> and
  \<open>Q--B-->Y\<close>, selecting \<open>B\<close> and continuing gives current node \<open>Y\<close> and history
  \<open>[Q]\<close>.
\<close>

theorem single_choice_resolution:
  "(currentNode nodes st = Some cn \<and> data_type (data cn) = Radio \<and> selections st = [c] \<and>
      find (\<lambda>e. source e = currentNodeId st \<and> sourceHandle e = HStr c) edges = Some e
      \<longrightarrow> nextEdge lc cn edges st = Some e \<and>
          handleContinue lc nodes edges st =
            (if findNode nodes (target e) = None then (AlertNextNodeMissing, st)
             else (Moved, \<lparr>history = history st @ [currentNodeId st], currentNodeId = target e,
                            selections = []\<rparr>))) \<and>
   (currentNode nodes st = Some cn \<and> data_type (data cn) = Radio \<and> selections st = [c] \<and>
      (\<forall>e\<in>set edges. \<not> (source e = currentNodeId st \<and> sourceHandle e = HStr c))
      \<longrightarrow> handleContinue lc nodes edges st = (AlertNoValidPath, st)) \<and>
   handleContinue lc scenarioQNodes scenarioQEdges (toggleSelection ''B'' True (stateAt [] ''Q'' [])) =
     (Moved, stateAt [''Q''] ''Y'' [])"
proof (intro conjI impI)
  assume a: "currentNode nodes st = Some cn \<and> data_type (data cn) = Radio \<and> selections st = [c] \<and>
      find (\<lambda>e. source e = currentNodeId st \<and> sourceHandle e = HStr c) edges = Some e"
  then show ne: "nextEdge lc cn edges st = Some e"
    by (simp add: nextEdge_def selectedOptionId_def)
  from a have "data_type (data cn) \<noteq> End" by simp
  with a ne handleContinue_follow [of nodes st cn lc edges]
  show "handleContinue lc nodes edges st =
      (if findNode nodes (target e) = None then (AlertNextNodeMissing, st)
       else (Moved, \<lparr>history = history st @ [currentNodeId st], currentNodeId = target e,
                      selections = []\<rparr>))"
    by simp
next
  assume a: "currentNode nodes st = Some cn \<and> data_type (data cn) = Radio \<and> selections st = [c] \<and>
      (\<forall>e\<in>set edges. \<not> (source e = currentNodeId st \<and> sourceHandle e = HStr c))"
  then have "nextEdge lc cn edges st = None"
    by (simp add: nextEdge_def selectedOptionId_def find_None_set)
  with a show "handleContinue lc nodes edges st = (AlertNoValidPath, st)"
    by (simp add: handleContinue_def)
next
  show "handleContinue lc scenarioQNodes scenarioQEdges (toggleSelection ''B'' True (stateAt [] ''Q'' [])) =
     (Moved, stateAt [''Q''] ''Y'' [])"
    by (simp add: viewer_defs example_defs toggleSelection_def)
qed

theorem single_choice_resolution_witness:
  "handleContinue codeUnitCompare scenarioQNodes scenarioQEdges (stateAt [''start''] ''Q'' [''A'']) =
     (Moved, stateAt [''start'', ''Q''] ''X'' []) \<and>
   handleContinue codeUnitCompare scenarioQNodes [edge ''Q'' (HStr ''A'') ''gone'']
       (stateAt [''start''] ''Q'' [''A'']) =
     (AlertNextNodeMissing, stateAt [''start''] ''Q'' [''A'']) \<and>
   handleContinue codeUnitCompare scenarioQNodes scenarioQEdges (stateAt [''start''] ''Q'' [''C'']) =
     (AlertNoValidPath, stateAt [''start''] ''Q'' [''C''])"
  using single_choice_resolution [where nodes = scenarioQNodes
      and st = "stateAt [''start''] ''Q'' [''A'']" and cn = nodeQ
      and c = "''A''" and e = "edge ''Q'' (HStr ''A'') ''X''" and lc = codeUnitCompare
      and edges = scenarioQEdges]
    single_choice_resolution [where nodes = scenarioQNodes
      and st = "stateAt [''start''] ''Q'' [''A'']" and cn = nodeQ
      and c = "''A''" and e = "edge ''Q'' (HStr ''A'') ''gone''" and lc = codeUnitCompare
      and edges = "[edge ''Q'' (HStr ''A'') ''gone'']"]
    single_choice_resolution [where nodes = scenarioQNodes
      and st = "stateAt [''start''] ''Q'' [''C'']" and cn = nodeQ
      and c = "''C''" and lc = codeUnitCompare and edges = scenarioQEdges]
  by (simp add: viewer_defs example_defs)

section \<open>Static nodes\<close>

text \<open>
  C8. Informational step with no outgoing connection. On a static node that is the
  source of no edge, \<open>handleContinue\<close> raises the "no valid path" alert and the state is
  unchanged.
\<close>

theorem informational_no_connection:
  assumes "currentNode nodes st = Some cn" and "data_type (data cn) = Static"
    and "\<forall>e\<in>set edges. source e \<noteq> currentNodeId st"
  shows "handleContinue lc nodes edges st = (AlertNoValidPath, st)"
proof -
  have "nextEdge lc cn edges st = None"
    using assms(2,3) by (simp add: nextEdge_def find_None_set)
  with assms(1,2) show ?thesis by (simp add: handleContinue_def)
qed

theorem informational_no_connection_witness:
  "list_all (\<lambda>e. source e \<noteq> ''Y'') exampleEdges \<and>
   handleContinue codeUnitCompare exampleNodes exampleEdges (stateAt [''start''] ''Y'' []) =
     (AlertNoValidPath, stateAt [''start''] ''Y'' [])"
proof -
  have h1: "currentNode exampleNodes (stateAt [''start''] ''Y'' []) = Some (mkNode ''Y'' Static [] [] None)"
    by (simp add: viewer_defs example_defs)
  have h2: "data_type (data (mkNode ''Y'' Static [] [] None)) = Static"
    by (simp add: example_defs)
  have h3: "\<forall>e\<in>set exampleEdges. source e \<noteq> currentNodeId (stateAt [''start''] ''Y'' [])"
    by (simp add: example_defs)
  from informational_no_connection [OF h1 h2 h3, of codeUnitCompare] h3
  show ?thesis by (simp add: stateAt_def list_all_iff)
qed

text \<open>
  C10. Informational step with several outgoing connections. On a static node that is
  the source of at least one edge, the edge list splits at the first edge out of the
  node: no edge before it leaves the node, \<open>handleContinue\<close> resolves to that edge and
  to no later one, and it moves to that edge's target (or, the target missing, raises
  the "next node is missing" alert and changes nothing).
\<close>

theorem informational_first_connection:
  assumes "currentNode nodes st = Some cn" and "data_type (data cn) = Static"
    and "\<exists>e\<in>set edges. source e = currentNodeId st"
  shows "\<exists>pre e post. edges = pre @ e # post \<and> (\<forall>x\<in>set pre. source x \<noteq> currentNodeId st) \<and>
           source e = currentNodeId st \<and> nextEdge lc cn edges st = Some e \<and>
           handleContinue lc nodes edges st =
             (if findNode nodes (target e) = None then (AlertNextNodeMissing, st)
              else (Moved, \<lparr>history = history st @ [currentNodeId st],
                             currentNodeId = target e, selections = []\<rparr>))"
proof -
  from assms(3) obtain e where e: "find (\<lambda>e. source e = currentNodeId st) edges = Some e"
    using find_exists [of _ edges "\<lambda>e. source e = currentNodeId st"] by blast
  then obtain pre post where split: "edges = pre @ e # post"
      "\<forall>x\<in>set pre. source x \<noteq> currentNodeId st" "source e = currentNodeId st"
    using find_Some_split [OF e] by blast
  have ne: "nextEdge lc cn edges st = Some e"
    using assms(2) e by (simp add: nextEdge_def)
  have "handleContinue lc nodes edges st =
          (if findNode nodes (target e) = None then (AlertNextNodeMissing, st)
           else (Moved, \<lparr>history = history st @ [currentNodeId st],
                          currentNodeId = target e, selections = []\<rparr>))"
    using assms(1,2) ne by (auto simp: handleContinue_def split: option.splits)
  with split ne show ?thesis by blast
qed

theorem informational_first_connection_witness:
  "exampleEdges = [] @ edge ''start'' HNull ''Y'' # tl exampleEdges \<and>
   handleContinue codeUnitCompare exampleNodes exampleEdges (stateAt [] ''start'' []) =
     (Moved, stateAt [''start''] ''Y'' []) \<and>
   handleContinue codeUnitCompare exampleNodes exampleEdges (stateAt [''start''] ''X'' []) =
     (AlertNextNodeMissing, stateAt [''start''] ''X'' [])"
  using informational_first_connection [where nodes = exampleNodes and st = "stateAt [] ''start'' []"
      and cn = "mkNode ''start'' Static [] [] None" and edges = exampleEdges and lc = codeUnitCompare]
  by (simp add: viewer_defs example_defs)

section \<open>Starting the viewer\<close>

text \<open>
  The viewer cannot be started at a chosen node. On a graph that holds the node \<open>Q\<close>
  and no node \<open>start\<close>, the state is still created at \<open>start\<close>, not at \<open>Q\<close>, and the
  viewer renders "Node not found".
\<close>

theorem start_step_counterexample:
  "findNode scenarioQNodes ''Q'' = Some nodeQ \<and>
   currentNodeId (fst (viewerMount scenarioQNodes)) = ''start'' \<and>
   snd (viewerMount scenarioQNodes) = NodeNotFound"
  by (simp add: viewerMount_def render_def initialState_def currentNode_def findNode_def
      scenarioQNodes_def nodeQ_def mkNode_def)

text \<open>
  C9, as the viewer has it. The start node is the fixed id \<open>start\<close>. Mounting the
  viewer always creates the initial state: current node \<open>start\<close>, no selection, empty
  history. When no node of the graph has the id \<open>start\<close> the viewer renders "Node not
  found" and \<open>handleContinue\<close> returns at once with the state untouched; when a node
  has that id the viewer renders the card of the first such node.
\<close>

theorem viewer_start_fixed:
  "fst (viewerMount nodes) = \<lparr>history = [], currentNodeId = ''start'', selections = []\<rparr> \<and>
   (''start'' \<notin> node_id ` set nodes \<longrightarrow>
      snd (viewerMount nodes) = NodeNotFound \<and>
      handleContinue lc nodes edges (fst (viewerMount nodes)) = (NoCurrentNode, fst (viewerMount nodes))) \<and>
   (''start'' \<in> node_id ` set nodes \<longrightarrow>
      (\<exists>pre n post. nodes = pre @ n # post \<and> ''start'' \<notin> node_id ` set pre \<and>
         node_id n = ''start'' \<and> snd (viewerMount nodes) = Card n))"
proof (intro conjI impI)
  show "fst (viewerMount nodes) = \<lparr>history = [], currentNodeId = ''start'', selections = []\<rparr>"
    by (simp add: viewerMount_def initialState_def)
next
  assume "''start'' \<notin> node_id ` set nodes"
  then have none: "currentNode nodes initialState = None"
    by (force simp: currentNode_def findNode_def initialState_def find_None_set)
  then show "snd (viewerMount nodes) = NodeNotFound"
    by (simp add: viewerMount_def render_def)
  from none show "handleContinue lc nodes edges (fst (viewerMount nodes)) =
      (NoCurrentNode, fst (viewerMount nodes))"
    by (simp add: viewerMount_def handleContinue_def)
next
  assume "''start'' \<in> node_id ` set nodes"
  then obtain x where "x \<in> set nodes" "node_id x = ''start''" by auto
  then obtain n where n: "find (\<lambda>n. node_id n = ''start'') nodes = Some n"
    using find_exists [of x nodes "\<lambda>n. node_id n = ''start''"] by blast
  from find_Some_split [OF n] obtain pre post where split: "nodes = pre @ n # post"
      "\<forall>x\<in>set pre. node_id x \<noteq> ''start''" "node_id n = ''start''" by blast
  from split(2) have "''start'' \<notin> node_id ` set pre" by auto
  moreover from n have "snd (viewerMount nodes) = Card n"
    by (simp add: viewerMount_def render_def currentNode_def findNode_def initialState_def)
  ultimately show "\<exists>pre n post. nodes = pre @ n # post \<and> ''start'' \<notin> node_id ` set pre \<and>
         node_id n = ''start'' \<and> snd (viewerMount nodes) = Card n"
    using split(1,3) by blast
qed

theorem viewer_start_fixed_witness:
  "snd (viewerMount scenarioQNodes) = NodeNotFound \<and>
   fst (viewerMount scenarioQNodes) = \<lparr>history = [], currentNodeId = ''start'', selections = []\<rparr> \<and>
   handleContinue codeUnitCompare scenarioQNodes scenarioQEdges (fst (viewerMount scenarioQNodes)) =
     (NoCurrentNode, fst (viewerMount scenarioQNodes)) \<and>
   viewerMount exampleNodes =
     (\<lparr>history = [], currentNodeId = ''start'', selections = []\<rparr>, Card (mkNode ''start'' Static [] [] None))"
proof -
  have h1: "''start'' \<notin> node_id ` set scenarioQNodes"
    by (simp add: scenarioQNodes_def nodeQ_def mkNode_def)
  have h2: "''start'' \<in> node_id ` set exampleNodes"
    by (simp add: exampleNodes_def mkNode_def)
  note T1 = viewer_start_fixed [where nodes = scenarioQNodes and lc = codeUnitCompare
      and edges = scenarioQEdges]
  note T2 = viewer_start_fixed [where nodes = exampleNodes]
  from T1 h1 have a: "snd (viewerMount scenarioQNodes) = NodeNotFound"
      and b: "handleContinue codeUnitCompare scenarioQNodes scenarioQEdges (fst (viewerMount scenarioQNodes)) =
        (NoCurrentNode, fst (viewerMount scenarioQNodes))"
      and b': "fst (viewerMount scenarioQNodes) =
        \<lparr>history = [], currentNodeId = ''start'', selections = []\<rparr>"
    by blast+
  from T2 have c: "fst (viewerMount exampleNodes) =
      \<lparr>history = [], currentNodeId = ''start'', selections = []\<rparr>" by simp
  have d: "snd (viewerMount exampleNodes) = Card (mkNode ''start'' Static [] [] None)"
    by (simp add: viewerMount_def render_def currentNode_def findNode_def initialState_def
        exampleNodes_def mkNode_def)
  from c d have "viewerMount exampleNodes =
     (\<lparr>history = [], currentNodeId = ''start'', selections = []\<rparr>, Card (mkNode ''start'' Static [] [] None))"
    by (simp add: prod_eq_iff)
  with a b b' show ?thesis by blast
qed

section \<open>Multi choice: subset matching and specificity\<close>

text \<open>
  The most specific matching path wins, and specificity is the length of the
  \<open>requiredOptionIds\<close> array. With three nested requirements the larger of two
  matching paths is passed over for a still larger one; and a path that repeats one id
  three times is counted longer than a path requiring two different ids, although its
  required set is a strict subset.
\<close>

theorem multichoice_specificity_counterexample:
  "pathMatches [''A'', ''B'', ''C''] pathP1 \<and> pathMatches [''A'', ''B'', ''C''] pathP2 \<and>
   set (requiredOptionIds pathP1) \<subset> set (requiredOptionIds pathP2) \<and>
   matchedPath codeUnitCompare [pathP1, pathP2, pathP4] [''A'', ''B'', ''C''] = Some pathP4 \<and>
   handleContinue codeUnitCompare (hubNodes [pathP1, pathP2, pathP4]) (hubEdges [pathP1, pathP2, pathP4])
       (stateAt [] ''M'' [''A'', ''B'', ''C'']) =
     (Moved, stateAt [''M''] ''P4'' []) \<and>
   pathMatches [''A'', ''B''] pathRepeat \<and> pathMatches [''A'', ''B''] pathP2 \<and>
   set (requiredOptionIds pathRepeat) \<subset> set (requiredOptionIds pathP2) \<and>
   matchedPath codeUnitCompare [pathRepeat, pathP2] [''A'', ''B''] = Some pathRepeat \<and>
   handleContinue codeUnitCompare (hubNodes [pathRepeat, pathP2]) (hubEdges [pathRepeat, pathP2])
       (stateAt [] ''M'' [''A'', ''B'']) =
     (Moved, stateAt [''M''] ''PR'' [])"
proof -
  have a: "pathMatches [''A'', ''B'', ''C''] pathP1 \<and> pathMatches [''A'', ''B'', ''C''] pathP2 \<and>
      pathMatches [''A'', ''B''] pathRepeat \<and> pathMatches [''A'', ''B''] pathP2"
    by (simp add: pathMatches_def pathP1_def pathP2_def pathRepeat_def)
  have b: "set (requiredOptionIds pathP1) \<subset> set (requiredOptionIds pathP2)"
    by (auto simp: pathP1_def pathP2_def)
  have c: "set (requiredOptionIds pathRepeat) \<subset> set (requiredOptionIds pathP2)"
    by (auto simp: pathRepeat_def pathP2_def)
  have d: "matchedPath codeUnitCompare [pathP1, pathP2, pathP4] [''A'', ''B'', ''C''] = Some pathP4"
    by (simp add: viewer_defs pathP1_def pathP2_def pathP4_def)
  have e: "matchedPath codeUnitCompare [pathRepeat, pathP2] [''A'', ''B''] = Some pathRepeat"
    by (simp add: viewer_defs pathRepeat_def pathP2_def)
  have f: "handleContinue codeUnitCompare (hubNodes [pathP1, pathP2, pathP4])
       (hubEdges [pathP1, pathP2, pathP4]) (stateAt [] ''M'' [''A'', ''B'', ''C'']) =
     (Moved, stateAt [''M''] ''P4'' [])"
    by (simp add: viewer_defs hubNodes_def hubEdges_def mkNode_def edge_def stateAt_def
        pathP1_def pathP2_def pathP4_def)
  have g: "handleContinue codeUnitCompare (hubNodes [pathRepeat, pathP2]) (hubEdges [pathRepeat, pathP2])
       (stateAt [] ''M'' [''A'', ''B'']) =
     (Moved, stateAt [''M''] ''PR'' [])"
    by (simp add: viewer_defs hubNodes_def hubEdges_def mkNode_def edge_def stateAt_def
        pathRepeat_def pathP2_def)
  from a b c d e f g show ?thesis by blast
qed

text \<open>
  C1, as the viewer has it. A path is a candidate exactly when every required option id
  is among the selections (a subset, not an exact match). Specificity is the length of
  the \<open>requiredOptionIds\<close> array; a duplicate-free array whose set is a strict subset of
  another's is the shorter one. On a checkbox node, when two paths \<open>Pa\<close> and \<open>Pb\<close> both
  match and the array of \<open>Pa\<close> is shorter than the array of \<open>Pb\<close>, \<open>handleContinue\<close>
  never resolves to \<open>Pa\<close>: it resolves to a matching path \<open>m\<close> whose array is as long as
  any matching path's, which is \<open>Pb\<close> itself when every other matching path is shorter
  than \<open>Pb\<close>, and it follows the first edge out of the node whose handle is the id of
  \<open>m\<close>.
\<close>

theorem multichoice_subset_specificity:
  "(pathMatches sel p \<longleftrightarrow> set (requiredOptionIds p) \<subseteq> set sel) \<and>
   (distinct (requiredOptionIds Pa) \<and> set (requiredOptionIds Pa) \<subset> set (requiredOptionIds Pb) \<longrightarrow>
      length (requiredOptionIds Pa) < length (requiredOptionIds Pb)) \<and>
   (currentNode nodes st = Some cn \<and> data_type (data cn) = Checkbox \<and> paths (data cn) = Some ps \<and>
    Pa \<in> set ps \<and> Pb \<in> set ps \<and>
    pathMatches (selections st) Pa \<and> pathMatches (selections st) Pb \<and>
    length (requiredOptionIds Pa) < length (requiredOptionIds Pb) \<longrightarrow>
      (\<exists>m. matchedPath lc ps (selections st) = Some m \<and> m \<in> set ps \<and>
           pathMatches (selections st) m \<and> m \<noteq> Pa \<and>
           (\<forall>q\<in>set ps. pathMatches (selections st) q \<longrightarrow>
               length (requiredOptionIds q) \<le> length (requiredOptionIds m)) \<and>
           ((\<forall>q\<in>set ps. pathMatches (selections st) q \<and> q \<noteq> Pb \<longrightarrow>
               length (requiredOptionIds q) < length (requiredOptionIds Pb)) \<longrightarrow> m = Pb) \<and>
           nextEdge lc cn edges st =
             find (\<lambda>e. source e = currentNodeId st \<and> sourceHandle e = HStr (path_id m)) edges \<and>
           handleContinue lc nodes edges st =
             (case find (\<lambda>e. source e = currentNodeId st \<and> sourceHandle e = HStr (path_id m)) edges of
                None \<Rightarrow> (AlertNoValidPath, st)
              | Some e \<Rightarrow>
                  if findNode nodes (target e) = None then (AlertNextNodeMissing, st)
                  else (Moved, \<lparr>history = history st @ [currentNodeId st],
                                 currentNodeId = target e, selections = []\<rparr>))))"
proof (intro conjI impI)
  show "pathMatches sel p \<longleftrightarrow> set (requiredOptionIds p) \<subseteq> set sel"
    by (rule pathMatches_subset)
next
  assume "distinct (requiredOptionIds Pa) \<and> set (requiredOptionIds Pa) \<subset> set (requiredOptionIds Pb)"
  then show "length (requiredOptionIds Pa) < length (requiredOptionIds Pb)"
    by (simp add: psubset_length)
next
  assume a: "currentNode nodes st = Some cn \<and> data_type (data cn) = Checkbox \<and> paths (data cn) = Some ps \<and>
    Pa \<in> set ps \<and> Pb \<in> set ps \<and>
    pathMatches (selections st) Pa \<and> pathMatches (selections st) Pb \<and>
    length (requiredOptionIds Pa) < length (requiredOptionIds Pb)"
  then have cn: "currentNode nodes st = Some cn" and ty: "data_type (data cn) = Checkbox"
    and ps: "paths (data cn) = Some ps" and inb: "Pb \<in> set ps"
    and mb: "pathMatches (selections st) Pb"
    and lt: "length (requiredOptionIds Pa) < length (requiredOptionIds Pb)"
    by simp_all
  from matchedPath_exists [OF inb mb] obtain m where m: "matchedPath lc ps (selections st) = Some m" ..
  have mem: "m \<in> set ps" and mm: "pathMatches (selections st) m"
    using matchedPath_mem [OF m] by simp_all
  have longest: "\<forall>q\<in>set ps. pathMatches (selections st) q \<longrightarrow>
      length (requiredOptionIds q) \<le> length (requiredOptionIds m)"
    using matchedPath_longest [OF m] by blast
  with inb mb have len: "length (requiredOptionIds Pb) \<le> length (requiredOptionIds m)" by blast
  with lt have ne: "m \<noteq> Pa" by auto
  have only: "(\<forall>q\<in>set ps. pathMatches (selections st) q \<and> q \<noteq> Pb \<longrightarrow>
      length (requiredOptionIds q) < length (requiredOptionIds Pb)) \<longrightarrow> m = Pb"
  proof (rule impI, rule ccontr)
    assume all: "\<forall>q\<in>set ps. pathMatches (selections st) q \<and> q \<noteq> Pb \<longrightarrow>
      length (requiredOptionIds q) < length (requiredOptionIds Pb)" and "m \<noteq> Pb"
    with mem mm have "length (requiredOptionIds m) < length (requiredOptionIds Pb)" by simp
    with len show False by simp
  qed
  have edge: "nextEdge lc cn edges st =
      find (\<lambda>e. source e = currentNodeId st \<and> sourceHandle e = HStr (path_id m)) edges"
    by (rule nextEdge_checkbox [OF ty ps m])
  from ty have "data_type (data cn) \<noteq> End" by simp
  from handleContinue_follow [OF cn this, of lc edges] edge
  have go: "handleContinue lc nodes edges st =
      (case find (\<lambda>e. source e = currentNodeId st \<and> sourceHandle e = HStr (path_id m)) edges of
         None \<Rightarrow> (AlertNoValidPath, st)
       | Some e \<Rightarrow>
           if findNode nodes (target e) = None then (AlertNextNodeMissing, st)
           else (Moved, \<lparr>history = history st @ [currentNodeId st],
                          currentNodeId = target e, selections = []\<rparr>))"
    by simp
  show "\<exists>m. matchedPath lc ps (selections st) = Some m \<and> m \<in> set ps \<and>
           pathMatches (selections st) m \<and> m \<noteq> Pa \<and>
           (\<forall>q\<in>set ps. pathMatches (selections st) q \<longrightarrow>
               length (requiredOptionIds q) \<le> length (requiredOptionIds m)) \<and>
           ((\<forall>q\<in>set ps. pathMatches (selections st) q \<and> q \<noteq> Pb \<longrightarrow>
               length (requiredOptionIds q) < length (requiredOptionIds Pb)) \<longrightarrow> m = Pb) \<and>
           nextEdge lc cn edges st =
             find (\<lambda>e. source e = currentNodeId st \<and> sourceHandle e = HStr (path_id m)) edges \<and>
           handleContinue lc nodes edges st =
             (case find (\<lambda>e. source e = currentNodeId st \<and> sourceHandle e = HStr (path_id m)) edges of
                None \<Rightarrow> (AlertNoValidPath, st)
              | Some e \<Rightarrow>
                  if findNode nodes (target e) = None then (AlertNextNodeMissing, st)
                  else (Moved, \<lparr>history = history st @ [currentNodeId st],
                                 currentNodeId = target e, selections = []\<rparr>))"
  proof (rule exI [of _ m], intro conjI)
    show "matchedPath lc ps (selections st) = Some m" by (rule m)
    show "m \<in> set ps" by (rule mem)
    show "pathMatches (selections st) m" by (rule mm)
    show "m \<noteq> Pa" by (rule ne)
    show "\<forall>q\<in>set ps. pathMatches (selections st) q \<longrightarrow>
               length (requiredOptionIds q) \<le> length (requiredOptionIds m)" by (rule longest)
    show "(\<forall>q\<in>set ps. pathMatches (selections st) q \<and> q \<noteq> Pb \<longrightarrow>
               length (requiredOptionIds q) < length (requiredOptionIds Pb)) \<longrightarrow> m = Pb" by (rule only)
    show "nextEdge lc cn edges st =
             find (\<lambda>e. source e = currentNodeId st \<and> sourceHandle e = HStr (path_id m)) edges"
      by (rule edge)
    show "handleContinue lc nodes edges st =
             (case find (\<lambda>e. source e = currentNodeId st \<and> sourceHandle e = HStr (path_id m)) edges of
                None \<Rightarrow> (AlertNoValidPath, st)
              | Some e \<Rightarrow>
                  if findNode nodes (target e) = None then (AlertNextNodeMissing, st)
                  else (Moved, \<lparr>history = history st @ [currentNodeId st],
                                 currentNodeId = target e, selections = []\<rparr>))"
      by (rule go)
  qed
qed

theorem multichoice_subset_specificity_witness:
  "pathMatches [''A'', ''B''] pathP1 \<and> pathMatches [''A'', ''B''] pathP2 \<and>
   set (requiredOptionIds pathP1) \<subset> set (requiredOptionIds pathP2) \<and>
   length (requiredOptionIds pathP1) < length (requiredOptionIds pathP2) \<and>
   matchedPath codeUnitCompare [pathP1, pathP2, pathP3] [''A'', ''B''] = Some pathP2 \<and>
   handleContinue codeUnitCompare scenarioMNodes scenarioMEdges (stateAt [] ''M'' [''A'', ''B'']) =
     (Moved, stateAt [''M''] ''Y'' []) \<and>
   handleContinue codeUnitCompare scenarioMNodes scenarioMEdges (stateAt [] ''M'' [''C'']) =
     (Moved, stateAt [''M''] ''Z'' [])"
proof -
  note T = multichoice_subset_specificity [where sel = "[''A'', ''B'']" and p = pathP1
      and Pa = pathP1 and Pb = pathP2 and nodes = scenarioMNodes and cn = nodeM
      and st = "stateAt [] ''M'' [''A'', ''B'']" and ps = "[pathP1, pathP2, pathP3]"
      and lc = codeUnitCompare and edges = scenarioMEdges]
  have d: "distinct (requiredOptionIds pathP1) \<and>
      set (requiredOptionIds pathP1) \<subset> set (requiredOptionIds pathP2)"
    by (auto simp: pathP1_def pathP2_def)
  with T have lt: "length (requiredOptionIds pathP1) < length (requiredOptionIds pathP2)"
    by blast
  have sub: "set (requiredOptionIds pathP1) \<subseteq> set [''A'', ''B''] \<and>
      set (requiredOptionIds pathP2) \<subseteq> set [''A'', ''B'']"
    by (simp add: pathP1_def pathP2_def)
  with T have c: "pathMatches [''A'', ''B''] pathP1 \<and> pathMatches [''A'', ''B''] pathP2"
    by (simp add: pathMatches_subset)
  have h: "currentNode scenarioMNodes (stateAt [] ''M'' [''A'', ''B'']) = Some nodeM \<and>
      data_type (data nodeM) = Checkbox \<and> paths (data nodeM) = Some [pathP1, pathP2, pathP3] \<and>
      pathP1 \<in> set [pathP1, pathP2, pathP3] \<and> pathP2 \<in> set [pathP1, pathP2, pathP3] \<and>
      pathMatches (selections (stateAt [] ''M'' [''A'', ''B''])) pathP1 \<and>
      pathMatches (selections (stateAt [] ''M'' [''A'', ''B''])) pathP2 \<and>
      length (requiredOptionIds pathP1) < length (requiredOptionIds pathP2)"
    using c lt
    by (simp add: currentNode_def findNode_def scenarioMNodes_def nodeM_def mkNode_def stateAt_def)
  have only: "\<forall>q\<in>set [pathP1, pathP2, pathP3].
      pathMatches (selections (stateAt [] ''M'' [''A'', ''B''])) q \<and> q \<noteq> pathP2 \<longrightarrow>
      length (requiredOptionIds q) < length (requiredOptionIds pathP2)"
    by (simp add: pathP1_def pathP2_def pathP3_def)
  from T h only
  have m: "matchedPath codeUnitCompare [pathP1, pathP2, pathP3]
      (selections (stateAt [] ''M'' [''A'', ''B''])) = Some pathP2"
    by blast
  then have m': "matchedPath codeUnitCompare [pathP1, pathP2, pathP3] [''A'', ''B''] = Some pathP2"
    by (simp add: stateAt_def)
  have e1: "handleContinue codeUnitCompare scenarioMNodes scenarioMEdges (stateAt [] ''M'' [''A'', ''B'']) =
     (Moved, stateAt [''M''] ''Y'' [])"
    by (simp add: viewer_defs example_defs)
  have e2: "handleContinue codeUnitCompare scenarioMNodes scenarioMEdges (stateAt [] ''M'' [''C'']) =
     (Moved, stateAt [''M''] ''Z'' [])"
    by (simp add: viewer_defs example_defs)
  from c d lt m' e1 e2 show ?thesis by blast
qed

section \<open>Multi choice: ties\<close>

text \<open>
  Among matching paths of the greatest length the least label wins, whichever two
  paths one looks at, and the length is the array's. With three paths tied, the smaller
  label of two of them loses to the third; and of two paths with equal required sets
  the one that repeats an id is the longer and wins, whatever the labels are.
\<close>

theorem multichoice_tie_counterexample:
  "pathMatches [''A'', ''B'', ''C''] pathAlpha \<and> pathMatches [''A'', ''B'', ''C''] pathBeta \<and>
   card (set (requiredOptionIds pathAlpha)) = card (set (requiredOptionIds pathBeta)) \<and>
   list_all (\<lambda>p. card (set (requiredOptionIds p)) \<le> card (set (requiredOptionIds pathAlpha)))
     [pathBeta, pathAlpha, pathGamma] \<and>
   codeUnitCompare (path_label pathAlpha) (path_label pathBeta) < 0 \<and>
   matchedPath codeUnitCompare [pathBeta, pathAlpha, pathGamma] [''A'', ''B'', ''C''] = Some pathGamma \<and>
   handleContinue codeUnitCompare (hubNodes [pathBeta, pathAlpha, pathGamma])
       (hubEdges [pathBeta, pathAlpha, pathGamma]) (stateAt [] ''M'' [''A'', ''B'', ''C'']) =
     (Moved, stateAt [''M''] ''p-c'' []) \<and>
   pathMatches [''A'', ''B''] pathShort \<and> pathMatches [''A'', ''B''] pathLong \<and>
   card (set (requiredOptionIds pathShort)) = card (set (requiredOptionIds pathLong)) \<and>
   codeUnitCompare (path_label pathShort) (path_label pathLong) < 0 \<and>
   matchedPath codeUnitCompare [pathShort, pathLong] [''A'', ''B''] = Some pathLong \<and>
   handleContinue codeUnitCompare (hubNodes [pathShort, pathLong]) (hubEdges [pathShort, pathLong])
       (stateAt [] ''M'' [''A'', ''B'']) =
     (Moved, stateAt [''M''] ''p-l'' [])"
proof -
  have a: "pathMatches [''A'', ''B'', ''C''] pathAlpha \<and> pathMatches [''A'', ''B'', ''C''] pathBeta \<and>
      pathMatches [''A'', ''B''] pathShort \<and> pathMatches [''A'', ''B''] pathLong"
    by (simp add: pathMatches_def pathAlpha_def pathBeta_def pathShort_def pathLong_def)
  have b: "card (set (requiredOptionIds pathAlpha)) = card (set (requiredOptionIds pathBeta))"
    by (simp add: pathAlpha_def pathBeta_def)
  have c: "list_all (\<lambda>p. card (set (requiredOptionIds p)) \<le> card (set (requiredOptionIds pathAlpha)))
     [pathBeta, pathAlpha, pathGamma]"
    by (simp add: pathAlpha_def pathBeta_def pathGamma_def)
  have d: "codeUnitCompare (path_label pathAlpha) (path_label pathBeta) < 0 \<and>
      codeUnitCompare (path_label pathShort) (path_label pathLong) < 0"
    by (simp add: pathAlpha_def pathBeta_def pathShort_def pathLong_def)
  have e: "matchedPath codeUnitCompare [pathBeta, pathAlpha, pathGamma] [''A'', ''B'', ''C''] =
      Some pathGamma"
    by (simp add: viewer_defs pathAlpha_def pathBeta_def pathGamma_def)
  have f: "handleContinue codeUnitCompare (hubNodes [pathBeta, pathAlpha, pathGamma])
       (hubEdges [pathBeta, pathAlpha, pathGamma]) (stateAt [] ''M'' [''A'', ''B'', ''C'']) =
     (Moved, stateAt [''M''] ''p-c'' [])"
    by (simp add: viewer_defs hubNodes_def hubEdges_def mkNode_def edge_def stateAt_def
        pathAlpha_def pathBeta_def pathGamma_def)
  have g: "card (set (requiredOptionIds pathShort)) = card (set (requiredOptionIds pathLong))"
    by (simp add: pathShort_def pathLong_def)
  have h: "matchedPath codeUnitCompare [pathShort, pathLong] [''A'', ''B''] = Some pathLong"
    by (simp add: viewer_defs pathShort_def pathLong_def)
  have i: "handleContinue codeUnitCompare (hubNodes [pathShort, pathLong]) (hubEdges [pathShort, pathLong])
       (stateAt [] ''M'' [''A'', ''B'']) =
     (Moved, stateAt [''M''] ''p-l'' [])"
    by (simp add: viewer_defs hubNodes_def hubEdges_def mkNode_def edge_def stateAt_def
        pathShort_def pathLong_def)
  from a b c d e f g h i show ?thesis by blast
qed

text \<open>
  C2, as the viewer has it. Specificity is the length of the \<open>requiredOptionIds\<close>
  array, and the order of labels is the one \<open>localeCompare\<close> gives, taken as any
  consistent comparator \<open>lc\<close>. On a checkbox node, when two matching paths \<open>Pa\<close> and
  \<open>Pb\<close> have arrays of equal length, no matching path has a longer one and the label of
  \<open>Pa\<close> is smaller than the label of \<open>Pb\<close>, \<open>handleContinue\<close> never resolves to \<open>Pb\<close>:
  it resolves to a matching path \<open>m\<close> of that length whose label is not greater than
  the label of any matching path of that length, which is \<open>Pa\<close> itself when the label of
  \<open>Pa\<close> is smaller than the label of every other such path, and it follows the first
  edge out of the node whose handle is the id of \<open>m\<close>.
\<close>

theorem multichoice_tie_break:
  assumes "consistentComparator lc"
    and "currentNode nodes st = Some cn" and "data_type (data cn) = Checkbox"
    and "paths (data cn) = Some ps"
    and "Pa \<in> set ps" and "Pb \<in> set ps"
    and "pathMatches (selections st) Pa" and "pathMatches (selections st) Pb"
    and "length (requiredOptionIds Pa) = length (requiredOptionIds Pb)"
    and "\<forall>p\<in>set ps. pathMatches (selections st) p \<longrightarrow>
           length (requiredOptionIds p) \<le> length (requiredOptionIds Pa)"
    and "lc (path_label Pa) (path_label Pb) < 0"
  shows "\<exists>m. matchedPath lc ps (selections st) = Some m \<and> m \<in> set ps \<and>
           pathMatches (selections st) m \<and> m \<noteq> Pb \<and>
           length (requiredOptionIds m) = length (requiredOptionIds Pa) \<and>
           (\<forall>p\<in>set ps. pathMatches (selections st) p \<and>
               length (requiredOptionIds p) = length (requiredOptionIds Pa) \<longrightarrow>
               lc (path_label m) (path_label p) \<le> 0) \<and>
           ((\<forall>p\<in>set ps. pathMatches (selections st) p \<and>
               length (requiredOptionIds p) = length (requiredOptionIds Pa) \<and> p \<noteq> Pa \<longrightarrow>
               lc (path_label Pa) (path_label p) < 0) \<longrightarrow> m = Pa) \<and>
           nextEdge lc cn edges st =
             find (\<lambda>e. source e = currentNodeId st \<and> sourceHandle e = HStr (path_id m)) edges \<and>
           handleContinue lc nodes edges st =
             (case find (\<lambda>e. source e = currentNodeId st \<and> sourceHandle e = HStr (path_id m)) edges of
                None \<Rightarrow> (AlertNoValidPath, st)
              | Some e \<Rightarrow>
                  if findNode nodes (target e) = None then (AlertNextNodeMissing, st)
                  else (Moved, \<lparr>history = history st @ [currentNodeId st],
                                 currentNodeId = target e, selections = []\<rparr>))"
proof -
  from matchedPath_exists [OF assms(5,7)] obtain m
    where m: "matchedPath lc ps (selections st) = Some m" ..
  have mem: "m \<in> set ps" and mm: "pathMatches (selections st) m"
    using matchedPath_mem [OF m] by simp_all
  have "length (requiredOptionIds m) \<le> length (requiredOptionIds Pa)"
    using assms(10) mem mm by blast
  moreover have "length (requiredOptionIds Pa) \<le> length (requiredOptionIds m)"
    by (rule matchedPath_longest [OF m assms(5,7)])
  ultimately have same: "length (requiredOptionIds m) = length (requiredOptionIds Pa)"
    by simp
  have least: "lc (path_label m) (path_label p) \<le> 0"
    if "p \<in> set ps" "pathMatches (selections st) p"
      "length (requiredOptionIds p) = length (requiredOptionIds Pa)" for p
  proof -
    have "pathCompare lc m p \<le> 0" by (rule matchedPath_least [OF assms(1) m that(1,2)])
    moreover have "length (requiredOptionIds m) = length (requiredOptionIds p)"
      using same that(3) by simp
    ultimately show ?thesis by (simp add: pathCompare_le_iff)
  qed
  have ne: "m \<noteq> Pb"
  proof
    assume "m = Pb"
    with least [OF assms(5,7)] have "lc (path_label Pb) (path_label Pa) \<le> 0" by simp
    with comparator_strict [OF assms(1,11)] show False by simp
  qed
  have only: "(\<forall>p\<in>set ps. pathMatches (selections st) p \<and>
               length (requiredOptionIds p) = length (requiredOptionIds Pa) \<and> p \<noteq> Pa \<longrightarrow>
               lc (path_label Pa) (path_label p) < 0) \<longrightarrow> m = Pa"
  proof (rule impI, rule ccontr)
    assume all: "\<forall>p\<in>set ps. pathMatches (selections st) p \<and>
               length (requiredOptionIds p) = length (requiredOptionIds Pa) \<and> p \<noteq> Pa \<longrightarrow>
               lc (path_label Pa) (path_label p) < 0" and "m \<noteq> Pa"
    with mem mm same have "lc (path_label Pa) (path_label m) < 0" by simp
    from comparator_strict [OF assms(1) this] least [OF assms(5,7)] show False by simp
  qed
  have edge: "nextEdge lc cn edges st =
      find (\<lambda>e. source e = currentNodeId st \<and> sourceHandle e = HStr (path_id m)) edges"
    by (rule nextEdge_checkbox [OF assms(3,4) m])
  from assms(3) have "data_type (data cn) \<noteq> End" by simp
  from handleContinue_follow [OF assms(2) this, of lc edges] edge
  have go: "handleContinue lc nodes edges st =
      (case find (\<lambda>e. source e = currentNodeId st \<and> sourceHandle e = HStr (path_id m)) edges of
         None \<Rightarrow> (AlertNoValidPath, st)
       | Some e \<Rightarrow>
           if findNode nodes (target e) = None then (AlertNextNodeMissing, st)
           else (Moved, \<lparr>history = history st @ [currentNodeId st],
                          currentNodeId = target e, selections = []\<rparr>))"
    by simp
  show ?thesis
  proof (rule exI [of _ m], intro conjI)
    show "matchedPath lc ps (selections st) = Some m" by (rule m)
    show "m \<in> set ps" by (rule mem)
    show "pathMatches (selections st) m" by (rule mm)
    show "m \<noteq> Pb" by (rule ne)
    show "length (requiredOptionIds m) = length (requiredOptionIds Pa)" by (rule same)
    show "\<forall>p\<in>set ps. pathMatches (selections st) p \<and>
               length (requiredOptionIds p) = length (requiredOptionIds Pa) \<longrightarrow>
               lc (path_label m) (path_label p) \<le> 0"
      using least by blast
    show "(\<forall>p\<in>set ps. pathMatches (selections st) p \<and>
               length (requiredOptionIds p) = length (requiredOptionIds Pa) \<and> p \<noteq> Pa \<longrightarrow>
               lc (path_label Pa) (path_label p) < 0) \<longrightarrow> m = Pa" by (rule only)
    show "nextEdge lc cn edges st =
             find (\<lambda>e. source e = currentNodeId st \<and> sourceHandle e = HStr (path_id m)) edges"
      by (rule edge)
    show "handleContinue lc nodes edges st =
             (case find (\<lambda>e. source e = currentNodeId st \<and> sourceHandle e = HStr (path_id m)) edges of
                None \<Rightarrow> (AlertNoValidPath, st)
              | Some e \<Rightarrow>
                  if findNode nodes (target e) = None then (AlertNextNodeMissing, st)
                  else (Moved, \<lparr>history = history st @ [currentNodeId st],
                                 currentNodeId = target e, selections = []\<rparr>))"
      by (rule go)
  qed
qed

theorem multichoice_tie_break_witness:
  "consistentComparator codeUnitCompare \<and>
   pathMatches [''A'', ''B''] pathAlpha \<and> pathMatches [''A'', ''B''] pathBeta \<and>
   length (requiredOptionIds pathAlpha) = length (requiredOptionIds pathBeta) \<and>
   codeUnitCompare (path_label pathAlpha) (path_label pathBeta) < 0 \<and>
   matchedPath codeUnitCompare tiePaths [''A'', ''B''] = Some pathAlpha \<and>
   handleContinue codeUnitCompare (hubNodes tiePaths) (hubEdges tiePaths) (stateAt [] ''M'' [''A'', ''B'']) =
     (Moved, stateAt [''M''] ''p-a'' [])"
proof -
  let ?st = "stateAt [] ''M'' [''A'', ''B'']"
  have sel: "selections ?st = [''A'', ''B'']" by (simp add: stateAt_def)
  have h2: "currentNode (hubNodes tiePaths) ?st = Some (mkNode ''M'' Checkbox [] tiePaths None)"
    by (simp add: currentNode_def findNode_def hubNodes_def stateAt_def mkNode_def)
  have h3: "data_type (data (mkNode ''M'' Checkbox [] tiePaths None)) = Checkbox"
    and h4: "paths (data (mkNode ''M'' Checkbox [] tiePaths None)) = Some tiePaths"
    by (simp_all add: mkNode_def)
  have h5: "pathAlpha \<in> set tiePaths" and h6: "pathBeta \<in> set tiePaths"
    by (simp_all add: tiePaths_def)
  have h7: "pathMatches (selections ?st) pathAlpha" and h8: "pathMatches (selections ?st) pathBeta"
    by (simp_all add: sel pathMatches_def pathAlpha_def pathBeta_def)
  have h9: "length (requiredOptionIds pathAlpha) = length (requiredOptionIds pathBeta)"
    by (simp add: pathAlpha_def pathBeta_def)
  have h10: "\<forall>p\<in>set tiePaths. pathMatches (selections ?st) p \<longrightarrow>
      length (requiredOptionIds p) \<le> length (requiredOptionIds pathAlpha)"
    by (simp add: sel tiePaths_def pathMatches_def pathAlpha_def pathBeta_def)
  have h11: "codeUnitCompare (path_label pathAlpha) (path_label pathBeta) < 0"
    by (simp add: pathAlpha_def pathBeta_def)
  have h12: "\<forall>p\<in>set tiePaths. pathMatches (selections ?st) p \<and>
      length (requiredOptionIds p) = length (requiredOptionIds pathAlpha) \<and> p \<noteq> pathAlpha \<longrightarrow>
      codeUnitCompare (path_label pathAlpha) (path_label p) < 0"
    by (simp add: sel tiePaths_def pathMatches_def pathAlpha_def pathBeta_def)
  from multichoice_tie_break [OF codeUnitCompare_consistent h2 h3 h4 h5 h6 h7 h8 h9 h10 h11,
      of "hubEdges tiePaths"] h12
  obtain m where m: "matchedPath codeUnitCompare tiePaths (selections ?st) = Some m" "m = pathAlpha"
    and go: "handleContinue codeUnitCompare (hubNodes tiePaths) (hubEdges tiePaths) ?st =
      (case find (\<lambda>e. source e = currentNodeId ?st \<and> sourceHandle e = HStr (path_id m))
              (hubEdges tiePaths) of
         None \<Rightarrow> (AlertNoValidPath, ?st)
       | Some e \<Rightarrow>
           if findNode (hubNodes tiePaths) (target e) = None then (AlertNextNodeMissing, ?st)
           else (Moved, \<lparr>history = history ?st @ [currentNodeId ?st],
                          currentNodeId = target e, selections = []\<rparr>))"
    by blast
  from m have m': "matchedPath codeUnitCompare tiePaths [''A'', ''B''] = Some pathAlpha"
    by (simp add: sel)
  from go m(2) have e: "handleContinue codeUnitCompare (hubNodes tiePaths) (hubEdges tiePaths) ?st =
      (Moved, stateAt [''M''] ''p-a'' [])"
    by (simp add: hubNodes_def hubEdges_def findNode_def mkNode_def edge_def stateAt_def
        tiePaths_def pathAlpha_def pathBeta_def)
  from codeUnitCompare_consistent h7 h8 h9 h11 m' e show ?thesis by (simp add: sel)
qed

section \<open>Empty selections\<close>

text \<open>
  \<open>handleContinue\<close> does not look at whether anything is selected. In the multi-choice
  scenario, with nothing selected, the path that requires nothing matches and the
  viewer moves to \<open>Z\<close>.
\<close>

theorem advance_empty_selection_counterexample:
  "currentNode scenarioMNodes (stateAt [] ''M'' []) = Some nodeM \<and>
   data_type (data nodeM) = Checkbox \<and> selections (stateAt [] ''M'' []) = [] \<and>
   handleContinue codeUnitCompare scenarioMNodes scenarioMEdges (stateAt [] ''M'' []) =
     (Moved, stateAt [''M''] ''Z'' [])"
  by (simp add: viewer_defs example_defs)

text \<open>
  C4, as the viewer has it. The selection precondition is the gate of the Continue
  button: on a radio or checkbox node with nothing selected \<open>canAdvance\<close> is false, and
  a press of the button commits no move and changes no state. \<open>handleContinue\<close> called
  past the gate does not check the selections again. With nothing selected it resolves,
  on a radio node, to the first edge out of the node whose \<open>sourceHandle\<close> is
  \<open>undefined\<close>, and on a checkbox node, to the first edge out of the node whose handle
  is the id of the first path, in sorted order, that requires nothing. It moves along
  the resolved edge when the edge's target exists; it raises the "next node is missing"
  alert when the target does not exist and the "no valid path" alert when no edge is
  resolved, and changes nothing in both cases. No edge is resolved, in particular, on a
  radio node whose outgoing edges all carry a handle or \<open>null\<close>, and on a checkbox node
  whose paths all require at least one option.
\<close>

theorem empty_selection_gate:
  assumes "currentNode nodes st = Some cn"
    and "data_type (data cn) = Radio \<or> data_type (data cn) = Checkbox"
    and "selections st = []"
  shows "\<not> canAdvance cn st \<and> clickContinue lc nodes edges st = (Blocked, st) \<and>
         (data_type (data cn) = Radio \<longrightarrow>
            nextEdge lc cn edges st =
              find (\<lambda>e. source e = currentNodeId st \<and> sourceHandle e = HUndefined) edges) \<and>
         (data_type (data cn) = Checkbox \<longrightarrow>
            nextEdge lc cn edges st =
              (case find (\<lambda>p. requiredOptionIds p = [])
                      (sortedPaths lc (case paths (data cn) of None \<Rightarrow> [] | Some ps \<Rightarrow> ps)) of
                 None \<Rightarrow> None
               | Some m \<Rightarrow>
                   find (\<lambda>e. source e = currentNodeId st \<and> sourceHandle e = HStr (path_id m)) edges)) \<and>
         handleContinue lc nodes edges st =
           (case nextEdge lc cn edges st of
              None \<Rightarrow> (AlertNoValidPath, st)
            | Some e \<Rightarrow>
                if findNode nodes (target e) = None then (AlertNextNodeMissing, st)
                else (Moved, \<lparr>history = history st @ [currentNodeId st],
                               currentNodeId = target e, selections = []\<rparr>)) \<and>
         (data_type (data cn) = Radio \<and>
          (\<forall>e\<in>set edges. source e = currentNodeId st \<longrightarrow> sourceHandle e \<noteq> HUndefined)
            \<longrightarrow> handleContinue lc nodes edges st = (AlertNoValidPath, st)) \<and>
         (data_type (data cn) = Checkbox \<and>
          (\<forall>ps. paths (data cn) = Some ps \<longrightarrow> (\<forall>p\<in>set ps. requiredOptionIds p \<noteq> []))
            \<longrightarrow> handleContinue lc nodes edges st = (AlertNoValidPath, st))"
proof (intro conjI impI)
  show gate: "\<not> canAdvance cn st"
    using assms(2,3) by (auto simp: canAdvance_def continueDisabled_def)
  then show "clickContinue lc nodes edges st = (Blocked, st)"
    using assms(1) by (simp add: clickContinue_def)
next
  assume "data_type (data cn) = Radio"
  then show "nextEdge lc cn edges st =
      find (\<lambda>e. source e = currentNodeId st \<and> sourceHandle e = HUndefined) edges"
    using assms(3) by (simp add: nextEdge_def selectedOptionId_def)
next
  assume "data_type (data cn) = Checkbox"
  then show "nextEdge lc cn edges st =
      (case find (\<lambda>p. requiredOptionIds p = [])
              (sortedPaths lc (case paths (data cn) of None \<Rightarrow> [] | Some ps \<Rightarrow> ps)) of
         None \<Rightarrow> None
       | Some m \<Rightarrow>
           find (\<lambda>e. source e = currentNodeId st \<and> sourceHandle e = HStr (path_id m)) edges)"
    using assms(3) by (simp add: nextEdge_def matchedPath_empty)
next
  from assms(2) have "data_type (data cn) \<noteq> End" by auto
  then show "handleContinue lc nodes edges st =
      (case nextEdge lc cn edges st of
         None \<Rightarrow> (AlertNoValidPath, st)
       | Some e \<Rightarrow>
           if findNode nodes (target e) = None then (AlertNextNodeMissing, st)
           else (Moved, \<lparr>history = history st @ [currentNodeId st],
                          currentNodeId = target e, selections = []\<rparr>))"
    by (rule handleContinue_follow [OF assms(1)])
next
  assume a: "data_type (data cn) = Radio \<and>
    (\<forall>e\<in>set edges. source e = currentNodeId st \<longrightarrow> sourceHandle e \<noteq> HUndefined)"
  then have "nextEdge lc cn edges st = None"
    using assms(3) by (auto simp: nextEdge_def selectedOptionId_def find_None_set)
  with a assms(1) show "handleContinue lc nodes edges st = (AlertNoValidPath, st)"
    by (simp add: handleContinue_def)
next
  assume a: "data_type (data cn) = Checkbox \<and>
    (\<forall>ps. paths (data cn) = Some ps \<longrightarrow> (\<forall>p\<in>set ps. requiredOptionIds p \<noteq> []))"
  have "matchedPath lc (case paths (data cn) of None \<Rightarrow> [] | Some ps \<Rightarrow> ps) [] = None"
  proof (cases "paths (data cn)")
    case None
    then show ?thesis by (simp add: matchedPath_def sortedPaths_def)
  next
    case (Some ps)
    with a have "\<forall>p\<in>set ps. requiredOptionIds p \<noteq> []" by simp
    with Some show ?thesis
      by (simp add: matchedPath_def sortedPaths_def find_None_set set_sortBy empty_selection_matches)
  qed
  then have "nextEdge lc cn edges st = None"
    using a assms(3) by (simp add: nextEdge_def)
  with a assms(1) show "handleContinue lc nodes edges st = (AlertNoValidPath, st)"
    by (simp add: handleContinue_def)
qed

theorem empty_selection_gate_witness:
  "clickContinue codeUnitCompare scenarioMNodes scenarioMEdges (stateAt [] ''M'' []) =
     (Blocked, stateAt [] ''M'' []) \<and>
   clickContinue codeUnitCompare scenarioQNodes scenarioQEdges (stateAt [] ''Q'' []) =
     (Blocked, stateAt [] ''Q'' []) \<and>
   handleContinue codeUnitCompare scenarioQNodes scenarioQEdges (stateAt [] ''Q'' []) =
     (AlertNoValidPath, stateAt [] ''Q'' []) \<and>
   handleContinue codeUnitCompare scenarioQNodes [edge ''Q'' HUndefined ''X''] (stateAt [] ''Q'' []) =
     (Moved, stateAt [''Q''] ''X'' []) \<and>
   handleContinue codeUnitCompare scenarioMNodes [edge ''M'' (HStr ''P1'') ''X''] (stateAt [] ''M'' []) =
     (AlertNoValidPath, stateAt [] ''M'' []) \<and>
   handleContinue codeUnitCompare [nodeStrict] scenarioMEdges (stateAt [] ''S'' []) =
     (AlertNoValidPath, stateAt [] ''S'' [])"
  using empty_selection_gate [where nodes = scenarioMNodes and st = "stateAt [] ''M'' []"
      and cn = nodeM and lc = codeUnitCompare and edges = scenarioMEdges]
    empty_selection_gate [where nodes = scenarioQNodes and st = "stateAt [] ''Q'' []"
      and cn = nodeQ and lc = codeUnitCompare and edges = scenarioQEdges]
    empty_selection_gate [where nodes = scenarioQNodes and st = "stateAt [] ''Q'' []"
      and cn = nodeQ and lc = codeUnitCompare and edges = "[edge ''Q'' HUndefined ''X'']"]
    empty_selection_gate [where nodes = scenarioMNodes and st = "stateAt [] ''M'' []"
      and cn = nodeM and lc = codeUnitCompare and edges = "[edge ''M'' (HStr ''P1'') ''X'']"]
    empty_selection_gate [where nodes = "[nodeStrict]" and st = "stateAt [] ''S'' []"
      and cn = nodeStrict and lc = codeUnitCompare and edges = scenarioMEdges]
  by (simp add: viewer_defs example_defs nodeStrict_def canAdvance_def continueDisabled_def
      clickContinue_def)

section \<open>Back after continue\<close>

text \<open>
  A restart is a successful continue that empties the history: going back after it
  stays at \<open>start\<close> and does not return to the end node.
\<close>

theorem back_after_restart_counterexample:
  "fst (handleContinue codeUnitCompare exampleNodes exampleEdges (stateAt [''start'', ''X''] ''again'' [])) =
     Restarted \<and>
   currentNodeId (stateAt [''start'', ''X''] ''again'' []) = ''again'' \<and>
   currentNodeId (handleBack (snd (handleContinue codeUnitCompare exampleNodes exampleEdges
      (stateAt [''start'', ''X''] ''again'' [])))) = ''start''"
  by (simp add: viewer_defs example_defs handleBack_def)

text \<open>
  C5, as the viewer has it. When \<open>handleContinue\<close> follows a connection (a move, not a
  restart) out of a node whose id is not the empty string, \<open>handleBack\<close> on the
  resulting state gives the prior node id, the prior history and no selection.
\<close>

theorem back_after_move:
  assumes "handleContinue lc nodes edges st = (Moved, st')" and "currentNodeId st \<noteq> []"
  shows "handleBack st' = \<lparr>history = history st, currentNodeId = currentNodeId st, selections = []\<rparr>"
proof -
  from assms(1) have "\<exists>t. st' = \<lparr>history = history st @ [currentNodeId st],
      currentNodeId = t, selections = []\<rparr>"
    by (auto simp: handleContinue_def split: option.splits if_splits)
  then obtain t where "st' = \<lparr>history = history st @ [currentNodeId st],
      currentNodeId = t, selections = []\<rparr>" ..
  with assms(2) show ?thesis by (simp add: handleBack_def)
qed

theorem back_after_move_witness:
  "handleContinue codeUnitCompare scenarioQNodes scenarioQEdges (stateAt [''start''] ''Q'' [''A'']) =
     (Moved, stateAt [''start'', ''Q''] ''X'' []) \<and>
   handleBack (stateAt [''start'', ''Q''] ''X'' []) = stateAt [''start''] ''Q'' []"
proof -
  have h1: "handleContinue codeUnitCompare scenarioQNodes scenarioQEdges (stateAt [''start''] ''Q'' [''A'']) =
     (Moved, stateAt [''start'', ''Q''] ''X'' [])"
    by (simp add: viewer_defs example_defs)
  have h2: "currentNodeId (stateAt [''start''] ''Q'' [''A'']) \<noteq> []"
    by (simp add: stateAt_def)
  from back_after_move [OF h1 h2] h1 show ?thesis by (simp add: stateAt_def)
qed

text \<open>
  The case left out above: \<open>handleBack\<close> tests the popped id for truthiness, so an empty
  node id on top of the history is popped and the viewer stays where it is.
\<close>

lemma handleBack_empty_id:
  "handleBack \<lparr>history = [''start'', ''''], currentNodeId = ''X'', selections = [''k'']\<rparr> =
     \<lparr>history = [''start''], currentNodeId = ''X'', selections = [''k'']\<rparr>"
  by (simp add: handleBack_def)

end
